theory Spec2Isabelle
  imports Main "HOL-Library.Word"
begin

section \<open>Data model of the deletable Bloom filter\<close>

text \<open>
  The filter of \<^verbatim>\<open>del-bf.h\<close> is a class with two \<^verbatim>\<open>std::vector<bool>\<close> members and
  four \<^verbatim>\<open>uint\<close> members. The vectors are lists of booleans, the unsigned integers are
  32-bit words. A data item is passed as \<^verbatim>\<open>char* data, int len\<close>; here it is the list of
  the \<^verbatim>\<open>len\<close> bytes behind the pointer.

  \<^verbatim>\<open>MurmurHash3_x86_32\<close> is declared in \<^verbatim>\<open>hash.h\<close>, which is not among the sources. Every
  operation takes it as the parameter \<open>H\<close>: buffer and seed in, 32-bit hash out.
\<close>

type_synonym buffer = "8 word list"

type_synonym hashfn = "buffer \<Rightarrow> 32 word \<Rightarrow> 32 word"

record DeletableBloomFilter =
  buckets :: "bool list"
  collisions :: "bool list"
  m :: "32 word"
  regionSize :: "32 word"
  k :: "32 word"
  count :: "32 word"

text \<open>
  C++ leaves three things undefined that the operations can run into: a remainder or
  quotient by zero, and an index past the end of a vector. They are results of the model.
\<close>

datatype fault = DivByZero | OutOfBounds

definition bindF :: "fault + 'a \<Rightarrow> ('a \<Rightarrow> fault + 'b) \<Rightarrow> fault + 'b" where
  "bindF x f = (case x of Inl e \<Rightarrow> Inl e | Inr v \<Rightarrow> f v)"

text \<open>\<^verbatim>\<open>v[i]\<close> read and \<^verbatim>\<open>v[i] = b\<close> on a vector.\<close>

definition bit_at :: "bool list \<Rightarrow> nat \<Rightarrow> fault + bool" where
  "bit_at v i = (if i < length v then Inr (v ! i) else Inl OutOfBounds)"

definition bit_assign :: "bool list \<Rightarrow> nat \<Rightarrow> bool \<Rightarrow> fault + bool list" where
  "bit_assign v i b = (if i < length v then Inr (v[i := b]) else Inl OutOfBounds)"

text \<open>\<^verbatim>\<open>MurmurHash3_x86_32(data, len, i, &hash); hash %= m;\<close>\<close>

definition bucketIndex :: "hashfn \<Rightarrow> DeletableBloomFilter \<Rightarrow> buffer \<Rightarrow> 32 word \<Rightarrow> fault + 32 word" where
  "bucketIndex H \<sigma> data i = (if m \<sigma> = 0 then Inl DivByZero else Inr (H data i mod m \<sigma>))"

text \<open>\<^verbatim>\<open>hash / regionSize\<close>\<close>

definition regionIndex :: "DeletableBloomFilter \<Rightarrow> 32 word \<Rightarrow> fault + 32 word" where
  "regionIndex \<sigma> h = (if regionSize \<sigma> = 0 then Inl DivByZero else Inr (h div regionSize \<sigma>))"

text \<open>
  Every loop of the class is \<^verbatim>\<open>for (uint i = 0; i < k; i++)\<close>: the body runs for the seeds
  \<open>0, 1, \<dots>, k - 1\<close> in this order and stops at the first fault.
\<close>

definition seeds :: "DeletableBloomFilter \<Rightarrow> 32 word list" where
  "seeds \<sigma> = map word_of_nat [0..<unat (k \<sigma>)]"

fun forSeeds :: "(32 word \<Rightarrow> 's \<Rightarrow> fault + 's) \<Rightarrow> 32 word list \<Rightarrow> 's \<Rightarrow> fault + 's" where
  "forSeeds body [] s = Inr s"
| "forSeeds body (i # is) s = bindF (body i s) (\<lambda>s'. forSeeds body is s')"

section \<open>Operations\<close>

text \<open>
  The constructor. \<open>optM\<close> and \<open>optK\<close> are what \<^verbatim>\<open>optimalM(n, fpRate)\<close> and
  \<^verbatim>\<open>optimalK(fpRate)\<close> returned (floating point, converted to \<^verbatim>\<open>uint\<close>). The body
  assigns five of the six members; \<^verbatim>\<open>count\<close> is not assigned and keeps the value \<open>count0\<close>
  that its storage held.
\<close>

definition NewDeletableBloomFilter ::
  "32 word \<Rightarrow> 32 word \<Rightarrow> 32 word \<Rightarrow> 32 word \<Rightarrow> fault + DeletableBloomFilter" where
  "NewDeletableBloomFilter optM optK r count0 =
    (if r = 0 then Inl DivByZero
     else Inr \<lparr>buckets = replicate (unat (optM - r)) False,
               collisions = replicate (unat r) False,
               m = optM - r,
               regionSize = (optM - r) div r,
               k = optK,
               count = count0\<rparr>)"

definition getCount :: "DeletableBloomFilter \<Rightarrow> 32 word" where
  "getCount \<sigma> = count \<sigma>"

fun test_loop :: "hashfn \<Rightarrow> buffer \<Rightarrow> 32 word list \<Rightarrow> DeletableBloomFilter
    \<Rightarrow> fault + (bool \<times> DeletableBloomFilter)" where
  "test_loop H data [] \<sigma> = Inr (True, \<sigma>)"
| "test_loop H data (i # is) \<sigma> =
    bindF (bucketIndex H \<sigma> data i) (\<lambda>h.
    bindF (bit_at (buckets \<sigma>) (unat h)) (\<lambda>b.
      if \<not> b then Inr (False, \<sigma>) else test_loop H data is \<sigma>))"

definition test :: "hashfn \<Rightarrow> buffer \<Rightarrow> DeletableBloomFilter
    \<Rightarrow> fault + (bool \<times> DeletableBloomFilter)" where
  "test H data \<sigma> = test_loop H data (seeds \<sigma>) \<sigma>"

definition add_body :: "hashfn \<Rightarrow> buffer \<Rightarrow> 32 word \<Rightarrow> DeletableBloomFilter
    \<Rightarrow> fault + DeletableBloomFilter" where
  "add_body H data i \<sigma> =
    bindF (bucketIndex H \<sigma> data i) (\<lambda>h.
    bindF (bit_at (buckets \<sigma>) (unat h)) (\<lambda>b.
      if b then
        bindF (regionIndex \<sigma> h) (\<lambda>g.
        bindF (bit_assign (collisions \<sigma>) (unat g) True) (\<lambda>cs.
          Inr (\<sigma>\<lparr>collisions := cs\<rparr>)))
      else
        bindF (bit_assign (buckets \<sigma>) (unat h) True) (\<lambda>bs.
          Inr (\<sigma>\<lparr>buckets := bs\<rparr>))))"

definition add :: "hashfn \<Rightarrow> buffer \<Rightarrow> DeletableBloomFilter \<Rightarrow> fault + DeletableBloomFilter" where
  "add H data \<sigma> =
    bindF (forSeeds (add_body H data) (seeds \<sigma>) \<sigma>) (\<lambda>\<sigma>'.
      Inr (\<sigma>'\<lparr>count := count \<sigma>' + 1\<rparr>))"

text \<open>The loop of \<^verbatim>\<open>testAndAdd\<close> carries the local \<^verbatim>\<open>member\<close> along with the filter.\<close>

definition testAndAdd_body :: "hashfn \<Rightarrow> buffer \<Rightarrow> 32 word \<Rightarrow> bool \<times> DeletableBloomFilter
    \<Rightarrow> fault + (bool \<times> DeletableBloomFilter)" where
  "testAndAdd_body H data i s =
    (case s of (member, \<sigma>) \<Rightarrow>
      bindF (bucketIndex H \<sigma> data i) (\<lambda>h.
      bindF (bit_at (buckets \<sigma>) (unat h)) (\<lambda>b.
      bindF (if \<not> b then Inr (False, \<sigma>)
             else bindF (regionIndex \<sigma> h) (\<lambda>g.
                  bindF (bit_assign (collisions \<sigma>) (unat g) True) (\<lambda>cs.
                    Inr (member, \<sigma>\<lparr>collisions := cs\<rparr>)))) (\<lambda>s1.
      bindF (bit_assign (buckets (snd s1)) (unat h) True) (\<lambda>bs.
        Inr (fst s1, (snd s1)\<lparr>buckets := bs\<rparr>))))))"

definition testAndAdd :: "hashfn \<Rightarrow> buffer \<Rightarrow> DeletableBloomFilter
    \<Rightarrow> fault + (bool \<times> DeletableBloomFilter)" where
  "testAndAdd H data \<sigma> =
    bindF (forSeeds (testAndAdd_body H data) (seeds \<sigma>) (True, \<sigma>)) (\<lambda>s.
      Inr (fst s, (snd s)\<lparr>count := count (snd s) + 1\<rparr>))"

text \<open>
  \<^verbatim>\<open>testAndRemove\<close> has two loops. The first only reads the filter and updates
  \<^verbatim>\<open>member\<close>; it has no \<^verbatim>\<open>return\<close> or \<^verbatim>\<open>break\<close> and visits all \<open>k\<close> seeds. The second runs
  when \<^verbatim>\<open>member\<close> is still true.
\<close>

definition testAndRemove_test_body :: "hashfn \<Rightarrow> buffer \<Rightarrow> DeletableBloomFilter \<Rightarrow> 32 word
    \<Rightarrow> bool \<Rightarrow> fault + bool" where
  "testAndRemove_test_body H data \<sigma> i member =
    bindF (bucketIndex H \<sigma> data i) (\<lambda>h.
    bindF (bit_at (buckets \<sigma>) (unat h)) (\<lambda>b.
      Inr (if \<not> b then False else member)))"

definition testAndRemove_clear_body :: "hashfn \<Rightarrow> buffer \<Rightarrow> 32 word \<Rightarrow> DeletableBloomFilter
    \<Rightarrow> fault + DeletableBloomFilter" where
  "testAndRemove_clear_body H data i \<sigma> =
    bindF (bucketIndex H \<sigma> data i) (\<lambda>h.
    bindF (regionIndex \<sigma> h) (\<lambda>g.
    bindF (bit_at (collisions \<sigma>) (unat g)) (\<lambda>c.
      if \<not> c then
        bindF (bit_assign (buckets \<sigma>) (unat h) False) (\<lambda>bs.
          Inr (\<sigma>\<lparr>buckets := bs\<rparr>))
      else Inr \<sigma>)))"

definition testAndRemove :: "hashfn \<Rightarrow> buffer \<Rightarrow> DeletableBloomFilter
    \<Rightarrow> fault + (bool \<times> DeletableBloomFilter)" where
  "testAndRemove H data \<sigma> =
    bindF (forSeeds (testAndRemove_test_body H data \<sigma>) (seeds \<sigma>) True) (\<lambda>member.
      if member then
        bindF (forSeeds (testAndRemove_clear_body H data) (seeds \<sigma>) \<sigma>) (\<lambda>\<sigma>'.
          Inr (True, \<sigma>'\<lparr>count := count \<sigma>' - 1\<rparr>))
      else Inr (False, \<sigma>))"

definition reset :: "DeletableBloomFilter \<Rightarrow> DeletableBloomFilter" where
  "reset \<sigma> = \<sigma>\<lparr>buckets := replicate (length (buckets \<sigma>)) False,
               collisions := replicate (length (collisions \<sigma>)) False,
               count := 0\<rparr>"

section \<open>Sequences of calls\<close>

datatype operation =
  Add buffer | Test buffer | TestAndAdd buffer | TestAndRemove buffer | Reset

text \<open>One call and what it returned (\<open>None\<close> for the two \<^verbatim>\<open>void\<close> members).\<close>

fun exec :: "hashfn \<Rightarrow> operation \<Rightarrow> DeletableBloomFilter
    \<Rightarrow> fault + (bool option \<times> DeletableBloomFilter)" where
  "exec H (Add data) \<sigma> = bindF (add H data \<sigma>) (\<lambda>\<sigma>'. Inr (None, \<sigma>'))"
| "exec H (Test data) \<sigma> = bindF (test H data \<sigma>) (\<lambda>r. Inr (Some (fst r), snd r))"
| "exec H (TestAndAdd data) \<sigma> = bindF (testAndAdd H data \<sigma>) (\<lambda>r. Inr (Some (fst r), snd r))"
| "exec H (TestAndRemove data) \<sigma> =
    bindF (testAndRemove H data \<sigma>) (\<lambda>r. Inr (Some (fst r), snd r))"
| "exec H Reset \<sigma> = Inr (None, reset \<sigma>)"

fun run :: "hashfn \<Rightarrow> operation list \<Rightarrow> DeletableBloomFilter
    \<Rightarrow> fault + (bool option list \<times> DeletableBloomFilter)" where
  "run H [] \<sigma> = Inr ([], \<sigma>)"
| "run H (c # cs) \<sigma> =
    bindF (exec H c \<sigma>) (\<lambda>r.
    bindF (run H cs (snd r)) (\<lambda>rs.
      Inr (fst r # fst rs, snd rs)))"

section \<open>Auxiliary notions for the statements\<close>

text \<open>
  A stand-in for the hash function in the examples: twice the first byte of the buffer
  plus the seed. Buffers with the same first byte collide under every seed.
\<close>

definition toyHash :: hashfn where
  "toyHash data seed = (case data of [] \<Rightarrow> 0 | b # bs \<Rightarrow> 2 * ucast b) + seed"

text \<open>Two filter values agree on the sizing members and on the lengths of both vectors.\<close>

definition sameShape :: "DeletableBloomFilter \<Rightarrow> DeletableBloomFilter \<Rightarrow> bool" where
  "sameShape \<sigma> \<sigma>' \<longleftrightarrow>
     m \<sigma>' = m \<sigma> \<and> regionSize \<sigma>' = regionSize \<sigma> \<and> k \<sigma>' = k \<sigma> \<and>
     length (buckets \<sigma>') = length (buckets \<sigma>) \<and>
     length (collisions \<sigma>') = length (collisions \<sigma>)"

text \<open>
  Two concrete filters for the examples. \<open>exampleFilter\<close> is
  \<^verbatim>\<open>DeletableBloomFilter(n, 4, fpRate)\<close> with \<open>optimalM = 8\<close> and \<open>optimalK = 2\<close> after
  one \<^verbatim>\<open>add\<close> of the buffer \<open>[1]\<close>; \<open>testFilter\<close> is the filter of \<^verbatim>\<open>test.cpp\<close>,
  \<^verbatim>\<open>DeletableBloomFilter(128, 128, 0.1)\<close>, for which \<open>optimalM = 614\<close> and
  \<open>optimalK = 4\<close>, with its counter at 0.
\<close>

definition exampleFilter :: DeletableBloomFilter where
  "exampleFilter = \<lparr>buckets = [False, False, True, True],
                     collisions = [False, False, False, False],
                     m = 4, regionSize = 1, k = 2, count = 1\<rparr>"

definition testFilter :: DeletableBloomFilter where
  "testFilter = \<lparr>buckets = replicate 486 False, collisions = replicate 128 False,
                  m = 486, regionSize = 3, k = 4, count = 0\<rparr>"

text \<open>
  Counting over a sequence of calls: the calls that add (\<^verbatim>\<open>add\<close>, \<^verbatim>\<open>testAndAdd\<close>) and the
  \<^verbatim>\<open>testAndRemove\<close> calls that returned true.
\<close>

fun isAdd :: "operation \<Rightarrow> bool" where
  "isAdd (Add data) = True"
| "isAdd (TestAndAdd data) = True"
| "isAdd c = False"

fun isRemoval :: "operation \<times> bool option \<Rightarrow> bool" where
  "isRemoval (TestAndRemove data, Some True) = True"
| "isRemoval p = False"

definition adds :: "operation list \<Rightarrow> nat" where
  "adds cs = length (filter isAdd cs)"

definition removals :: "operation list \<Rightarrow> bool option list \<Rightarrow> nat" where
  "removals cs rs = length (filter isRemoval (zip cs rs))"

text \<open>The filter built with \<open>optimalM = 8\<close>, \<open>optimalK = 2\<close>, \<open>r = 4\<close>, counter at 0.\<close>

definition emptyFilter :: DeletableBloomFilter where
  "emptyFilter = \<lparr>buckets = [False, False, False, False],
                   collisions = [False, False, False, False],
                   m = 4, regionSize = 1, k = 2, count = 0\<rparr>"

text \<open>
  The collision flag of the region of bucket \<open>j\<close> is set (the lookup being in bounds), and
  bucket \<open>j\<close> is a set bit in such a region.
\<close>

definition regionFlagged :: "DeletableBloomFilter \<Rightarrow> nat \<Rightarrow> bool" where
  "regionFlagged \<sigma> j \<longleftrightarrow>
     regionSize \<sigma> \<noteq> 0 \<and> j div unat (regionSize \<sigma>) < length (collisions \<sigma>) \<and>
     collisions \<sigma> ! (j div unat (regionSize \<sigma>))"

definition pinned :: "DeletableBloomFilter \<Rightarrow> nat \<Rightarrow> bool" where
  "pinned \<sigma> j \<longleftrightarrow> regionFlagged \<sigma> j \<and> j < length (buckets \<sigma>) \<and> buckets \<sigma> ! j"

text \<open>
  Bookkeeping for the absence of false negatives. \<open>bucketOf\<close> is the bucket of an item
  under a seed, \<open>hits\<close> the number of seeds of a list that send the item to bucket \<open>j\<close>,
  and \<open>load\<close> the number of (item, seed) pairs of a list of held items that land on
  bucket \<open>j\<close>. A filter is \<open>backed\<close> for a load when every bucket with load at least 1
  is set and every bucket with load at least 2 lies in a flagged region.
\<close>

definition bucketOf :: "hashfn \<Rightarrow> DeletableBloomFilter \<Rightarrow> buffer \<Rightarrow> 32 word \<Rightarrow> nat" where
  "bucketOf H \<sigma> x i = unat (H x i mod m \<sigma>)"

definition hits :: "hashfn \<Rightarrow> DeletableBloomFilter \<Rightarrow> buffer \<Rightarrow> 32 word list \<Rightarrow> nat \<Rightarrow> nat" where
  "hits H \<sigma> x is j = length (filter (\<lambda>i. bucketOf H \<sigma> x i = j) is)"

definition load :: "hashfn \<Rightarrow> DeletableBloomFilter \<Rightarrow> buffer list \<Rightarrow> nat \<Rightarrow> nat" where
  "load H \<sigma> S j = sum_list (map (\<lambda>y. hits H \<sigma> y (seeds \<sigma>) j) S)"

definition backed :: "DeletableBloomFilter \<Rightarrow> (nat \<Rightarrow> nat) \<Rightarrow> bool" where
  "backed \<sigma> c \<longleftrightarrow>
     (\<forall>j. (1 \<le> c j \<longrightarrow> m \<sigma> \<noteq> 0 \<and> j < length (buckets \<sigma>) \<and> buckets \<sigma> ! j) \<and>
          (2 \<le> c j \<longrightarrow> regionFlagged \<sigma> j))"

text \<open>
  The items held after a sequence of calls and their results, starting from the list
  \<open>S\<close>: \<^verbatim>\<open>add\<close> and \<^verbatim>\<open>testAndAdd\<close> put the item in, a \<^verbatim>\<open>testAndRemove\<close> that returned true
  takes one occurrence out, \<^verbatim>\<open>reset\<close> empties the list. The result is \<open>None\<close> when a
  \<^verbatim>\<open>testAndRemove\<close> returned true for an item that was not held (a false positive was
  removed).
\<close>

fun holdings :: "buffer list \<Rightarrow> (operation \<times> bool option) list \<Rightarrow> buffer list option" where
  "holdings S [] = Some S"
| "holdings S ((Add x, r) # t) = holdings (x # S) t"
| "holdings S ((TestAndAdd x, r) # t) = holdings (x # S) t"
| "holdings S ((Test x, r) # t) = holdings S t"
| "holdings S ((TestAndRemove x, r) # t) =
     (if r = Some True then (if x \<in> set S then holdings (remove1 x S) t else None)
      else holdings S t)"
| "holdings S ((Reset, r) # t) = holdings [] t"

section \<open>Basic facts\<close>


lemma bindF_Inl [simp]: "bindF (Inl e) f = Inl e"
  by (simp add: bindF_def)

lemma bindF_Inr [simp]: "bindF (Inr v) f = f v"
  by (simp add: bindF_def)

lemma bindF_eq_Inr: "bindF x f = Inr y \<longleftrightarrow> (\<exists>v. x = Inr v \<and> f v = Inr y)"
  by (cases x) simp_all

lemma bit_at_Inr: "bit_at v i = Inr b \<longleftrightarrow> i < length v \<and> b = v ! i"
  by (auto simp: bit_at_def)

lemma bit_assign_Inr: "bit_assign v i b = Inr v' \<longleftrightarrow> i < length v \<and> v' = v[i := b]"
  by (auto simp: bit_assign_def)

lemma bucketIndex_Inr: "bucketIndex H \<sigma> data i = Inr h \<longleftrightarrow> m \<sigma> \<noteq> 0 \<and> h = H data i mod m \<sigma>"
  by (auto simp: bucketIndex_def)

lemma regionIndex_Inr: "regionIndex \<sigma> h = Inr g \<longleftrightarrow> regionSize \<sigma> \<noteq> 0 \<and> g = h div regionSize \<sigma>"
  by (auto simp: regionIndex_def)

lemma forSeeds_inv:
  assumes "forSeeds body is s = Inr s'" and "P s"
    and "\<And>i t t'. i \<in> set is \<Longrightarrow> P t \<Longrightarrow> body i t = Inr t' \<Longrightarrow> P t'"
  shows "P s'"
  using assms
proof (induction "is" arbitrary: s)
  case Nil
  then show ?case by simp
next
  case (Cons i "is")
  from Cons.prems(1) obtain t where t: "body i s = Inr t" and rest: "forSeeds body is t = Inr s'"
    by (auto simp: bindF_eq_Inr)
  have "P t" using Cons.prems(3) [of i s t] Cons.prems(2) t by simp
  then show ?case using Cons.IH [OF rest] Cons.prems(3) by auto
qed

lemma test_loop_state: "test_loop H data is \<sigma> = Inr (b, \<sigma>') \<Longrightarrow> \<sigma>' = \<sigma>"
  by (induction "is") (auto simp: bindF_eq_Inr split: if_splits)

lemma sameShape_refl [simp]: "sameShape \<sigma> \<sigma>"
  by (simp add: sameShape_def)

lemma sameShape_trans: "sameShape \<sigma> \<sigma>1 \<Longrightarrow> sameShape \<sigma>1 \<sigma>2 \<Longrightarrow> sameShape \<sigma> \<sigma>2"
  by (simp add: sameShape_def)

lemma sameShape_seeds: "sameShape \<sigma> \<sigma>' \<Longrightarrow> seeds \<sigma>' = seeds \<sigma>"
  by (simp add: sameShape_def seeds_def)

lemma add_body_shape: "add_body H data i \<sigma> = Inr \<sigma>' \<Longrightarrow> sameShape \<sigma> \<sigma>'"
  by (auto simp: add_body_def bindF_eq_Inr bit_assign_Inr sameShape_def split: if_splits)

lemma add_loop_shape: "forSeeds (add_body H data) is \<sigma> = Inr \<sigma>' \<Longrightarrow> sameShape \<sigma> \<sigma>'"
  by (erule forSeeds_inv [where P = "sameShape \<sigma>"])
     (auto dest!: add_body_shape elim: sameShape_trans)

lemma add_shape: "add H data \<sigma> = Inr \<sigma>' \<Longrightarrow> sameShape \<sigma> \<sigma>'"
  by (auto simp: add_def bindF_eq_Inr sameShape_def dest!: add_loop_shape)

lemma testAndAdd_body_shape:
  "testAndAdd_body H data i (b, \<sigma>) = Inr (b', \<sigma>') \<Longrightarrow> sameShape \<sigma> \<sigma>'"
  by (auto simp: testAndAdd_body_def bindF_eq_Inr bit_assign_Inr sameShape_def split: if_splits)

lemma testAndAdd_loop_shape:
  "forSeeds (testAndAdd_body H data) is (b, \<sigma>) = Inr (b', \<sigma>') \<Longrightarrow> sameShape \<sigma> \<sigma>'"
  by (drule forSeeds_inv [where P = "\<lambda>s. sameShape \<sigma> (snd s)"])
     (auto dest!: testAndAdd_body_shape elim: sameShape_trans)

lemma testAndAdd_shape: "testAndAdd H data \<sigma> = Inr (b, \<sigma>') \<Longrightarrow> sameShape \<sigma> \<sigma>'"
  by (auto simp: testAndAdd_def bindF_eq_Inr sameShape_def dest!: testAndAdd_loop_shape)

lemma clear_body_shape: "testAndRemove_clear_body H data i \<sigma> = Inr \<sigma>' \<Longrightarrow> sameShape \<sigma> \<sigma>'"
  by (auto simp: testAndRemove_clear_body_def bindF_eq_Inr bit_assign_Inr sameShape_def
      split: if_splits)

lemma clear_loop_shape:
  "forSeeds (testAndRemove_clear_body H data) is \<sigma> = Inr \<sigma>' \<Longrightarrow> sameShape \<sigma> \<sigma>'"
  by (erule forSeeds_inv [where P = "sameShape \<sigma>"])
     (auto dest!: clear_body_shape elim: sameShape_trans)

lemma testAndRemove_shape: "testAndRemove H data \<sigma> = Inr (b, \<sigma>') \<Longrightarrow> sameShape \<sigma> \<sigma>'"
  by (auto simp: testAndRemove_def bindF_eq_Inr sameShape_def split: if_splits
      dest!: clear_loop_shape)

lemma reset_shape: "sameShape \<sigma> (reset \<sigma>)"
  by (simp add: sameShape_def reset_def)

lemma exec_shape: "exec H c \<sigma> = Inr (r, \<sigma>') \<Longrightarrow> sameShape \<sigma> \<sigma>'"
  by (cases c)
     (auto simp: bindF_eq_Inr reset_shape test_def
       dest: add_shape test_loop_state testAndAdd_shape testAndRemove_shape)

lemma run_shape: "run H cs \<sigma> = Inr (rs, \<sigma>') \<Longrightarrow> sameShape \<sigma> \<sigma>'"
proof (induction cs arbitrary: \<sigma> rs)
  case Nil
  then show ?case by simp
next
  case (Cons c cs)
  then show ?case
    by (auto simp: bindF_eq_Inr dest!: exec_shape intro: sameShape_trans)
qed

lemma bucket_in_range: "m \<sigma> \<noteq> 0 \<Longrightarrow> unat (h mod m \<sigma>) < unat (m \<sigma>)"
  by (simp add: unat_mod unat_gt_0)

lemma seeds_nonempty: "k \<sigma> \<noteq> 0 \<Longrightarrow> seeds \<sigma> = 0 # map word_of_nat [1..<unat (k \<sigma>)]"
  by (simp add: seeds_def upt_conv_Cons unat_gt_0)

lemma seeds_member: "i < unat (k \<sigma>) \<Longrightarrow> word_of_nat i \<in> set (seeds \<sigma>)"
  by (simp add: seeds_def)

lemmas eval_defs = bit_at_def bit_assign_def bucketIndex_def regionIndex_def seeds_def
  test_def add_def add_body_def testAndAdd_def testAndAdd_body_def testAndRemove_def
  testAndRemove_test_body_def testAndRemove_clear_body_def reset_def getCount_def
  NewDeletableBloomFilter_def toyHash_def upt_rec

lemma NewDeletableBloomFilter_Inr:
  "NewDeletableBloomFilter optM optK r count0 = Inr \<sigma> \<Longrightarrow>
     buckets \<sigma> = replicate (unat (optM - r)) False \<and>
     collisions \<sigma> = replicate (unat r) False \<and>
     m \<sigma> = optM - r \<and> regionSize \<sigma> = (optM - r) div r \<and> k \<sigma> = optK \<and>
     getCount \<sigma> = count0"
  by (auto simp: NewDeletableBloomFilter_def getCount_def split: if_splits)

section \<open>The constructor\<close>

text \<open>
  C4. The claim: right after construction with valid parameters both vectors are all
  zero and \<^verbatim>\<open>getCount()\<close> returns 0. The vectors are (\<open>NewDeletableBloomFilter_Inr\<close>), the
  counter is not: the constructor never assigns \<^verbatim>\<open>count\<close>, so \<^verbatim>\<open>getCount()\<close> returns
  whatever the member's storage held. For the parameters of \<^verbatim>\<open>test.cpp\<close> and storage
  holding \<open>0xDEADBEEF\<close> the first \<^verbatim>\<open>getCount()\<close> returns \<open>0xDEADBEEF\<close>.
\<close>

theorem constructor_leaves_count_unset:
  "NewDeletableBloomFilter 614 4 128 3735928559 = Inr (testFilter\<lparr>count := 3735928559\<rparr>) \<and>
   getCount (testFilter\<lparr>count := 3735928559\<rparr>) = 3735928559"
  by (simp add: NewDeletableBloomFilter_def getCount_def testFilter_def)

section \<open>Membership test\<close>

text \<open>
  C9. \<^verbatim>\<open>test\<close> has no side effects: when it returns, the membership bits, the collision
  flags and the counter (indeed the whole filter) are what they were before the call.
\<close>

theorem test_no_side_effects:
  "test H data \<sigma> = Inr (b, \<sigma>') \<Longrightarrow>
     buckets \<sigma>' = buckets \<sigma> \<and> collisions \<sigma>' = collisions \<sigma> \<and>
     count \<sigma>' = count \<sigma> \<and> \<sigma>' = \<sigma>"
  using test_loop_state [of H data "seeds \<sigma>" \<sigma> b \<sigma>'] by (simp add: test_def)

theorem test_no_side_effects_witness:
  "test toyHash [1] exampleFilter = Inr (True, exampleFilter) \<and>
   buckets exampleFilter = buckets exampleFilter \<and>
   collisions exampleFilter = collisions exampleFilter \<and>
   count exampleFilter = count exampleFilter"
proof -
  have h: "test toyHash [1] exampleFilter = Inr (True, exampleFilter)"
    by (simp add: eval_defs exampleFilter_def)
  show ?thesis using test_no_side_effects [OF h] h by simp
qed

section \<open>Region lookups\<close>

text \<open>
  When the regions cover the bucket vector, \<open>m \<le> r * regionSize\<close>, every region index is
  in bounds. The constructor's \<open>regionSize = m / r\<close> rounds down, so this holds only when
  \<open>r\<close> divides \<open>m\<close>. For the sizes of \<^verbatim>\<open>test.cpp\<close> the removal loop faults on every bucket
  from 384 on, whatever the hash function is.
\<close>

lemma region_lookup_in_bounds:
  assumes "m \<sigma> \<noteq> 0" and "regionSize \<sigma> \<noteq> 0"
    and "unat (m \<sigma>) \<le> length (collisions \<sigma>) * unat (regionSize \<sigma>)"
  shows "unat ((H x i mod m \<sigma>) div regionSize \<sigma>) < length (collisions \<sigma>)"
proof -
  have "unat (H x i mod m \<sigma>) < length (collisions \<sigma>) * unat (regionSize \<sigma>)"
    using bucket_in_range [OF assms(1), of "H x i"] assms(3) by simp
  then show ?thesis
    by (simp add: unat_div less_mult_imp_div_less)
qed

lemma region_lookup_past_end:
  assumes "m \<sigma> = 486" and "regionSize \<sigma> = 3" and "length (collisions \<sigma>) = 128"
    and "384 \<le> unat (H x i mod 486)"
  shows "testAndRemove_clear_body H x i \<sigma> = Inl OutOfBounds"
proof -
  have "128 \<le> unat (H x i mod 486) div 3" using assms(4) by simp
  then show ?thesis
    using assms(1-3)
    by (simp add: testAndRemove_clear_body_def bucketIndex_def regionIndex_def bit_at_def
        unat_div)
qed

text \<open>
  C1. The claim: every collision-array lookup is in bounds, that is, every bucket index
  \<open>idx\<close> an operation uses satisfies \<open>idx / regionSize < r\<close>. It fails for the filter of
  \<^verbatim>\<open>test.cpp\<close>: there \<open>m = 486\<close>, \<open>r = 128\<close> and \<open>regionSize = 486 / 128 = 3\<close>, so every
  bucket index from 384 on has a region index of 128 or more. With a hash that sends a
  buffer to bucket 400, the region index is 133 and a second \<^verbatim>\<open>add\<close>, a \<^verbatim>\<open>testAndAdd\<close> or
  a \<^verbatim>\<open>testAndRemove\<close> of the buffer indexes \<^verbatim>\<open>collisions\<close> past its end.
\<close>

theorem region_lookup_out_of_bounds:
  "NewDeletableBloomFilter 614 4 128 0 = Inr testFilter \<and>
   bucketIndex toyHash testFilter [200] 0 = Inr 400 \<and>
   regionIndex testFilter 400 = Inr 133 \<and>
   length (collisions testFilter) = 128 \<and>
   bindF (add toyHash [200] testFilter) (add toyHash [200]) = Inl OutOfBounds \<and>
   bindF (add toyHash [200] testFilter) (testAndAdd toyHash [200]) = Inl OutOfBounds \<and>
   bindF (add toyHash [200] testFilter) (testAndRemove toyHash [200]) = Inl OutOfBounds"
  by (simp add: eval_defs testFilter_def)

section \<open>The counter\<close>

text \<open>
  C10. The counter is a 32-bit unsigned integer that \<^verbatim>\<open>testAndRemove\<close> decrements without
  a guard, so there is a sequence of calls after which \<^verbatim>\<open>getCount()\<close> returns \<open>2^32 - 1\<close>:
  on a reset filter, two \<^verbatim>\<open>add\<close>s of one buffer flag its regions, its bits are never
  cleared again, and three \<^verbatim>\<open>testAndRemove\<close>s of a colliding buffer that was never added
  all return true; the third finds the counter at 0. Directly after a reset every bit
  is clear, and \<^verbatim>\<open>testAndRemove\<close> passes its test there only when \<open>k = 0\<close> (second part).
\<close>

theorem count_wraps_below_zero:
  "bindF (NewDeletableBloomFilter 8 2 4 7)
     (run toyHash [Reset, Add [1], Add [1],
        TestAndRemove [1, 0], TestAndRemove [1, 0], TestAndRemove [1, 0]]) =
   Inr ([None, None, None, Some True, Some True, Some True],
        \<lparr>buckets = [False, False, True, True], collisions = [False, False, True, True],
         m = 4, regionSize = 1, k = 2, count = 2 ^ 32 - 1\<rparr>) \<and>
   bindF (NewDeletableBloomFilter 8 0 4 7) (run toyHash [Reset, TestAndRemove [1]]) =
   Inr ([None, Some True],
        \<lparr>buckets = [False, False, False, False], collisions = [False, False, False, False],
         m = 4, regionSize = 1, k = 0, count = 2 ^ 32 - 1\<rparr>)"
  by code_simp

section \<open>Failed removal\<close>

lemma remove_test_loop:
  assumes "length (buckets \<sigma>) = unat (m \<sigma>)" and "m \<sigma> \<noteq> 0"
  shows "forSeeds (testAndRemove_test_body H data \<sigma>) is b =
         Inr (b \<and> (\<forall>i\<in>set is. buckets \<sigma> ! unat (H data i mod m \<sigma>)))"
proof (induction "is" arbitrary: b)
  case Nil
  then show ?case by simp
next
  case (Cons i "is")
  have "testAndRemove_test_body H data \<sigma> i b =
        Inr (b \<and> buckets \<sigma> ! unat (H data i mod m \<sigma>))"
    using assms by (auto simp: testAndRemove_test_body_def bucketIndex_def bit_at_def bucket_in_range)
  then show ?case using Cons.IH by auto
qed

text \<open>
  C6. Atomicity of a failed removal: when one of the \<open>k\<close> membership bits of the item is
  unset, \<^verbatim>\<open>testAndRemove\<close> returns false and the filter (membership bits, collision
  flags, counter) is unchanged. The filter is one whose bucket vector has \<open>m\<close> elements,
  \<open>m > 0\<close>, as the constructor builds it; the call then cannot fault. The first loop of
  the source has no early exit: it visits all \<open>k\<close> seeds before the \<^verbatim>\<open>return\<close>, which
  shows in neither the result nor the filter.
\<close>

theorem failed_removal_changes_nothing:
  assumes "length (buckets \<sigma>) = unat (m \<sigma>)" and "m \<sigma> \<noteq> 0"
    and "i < unat (k \<sigma>)"
    and "\<not> buckets \<sigma> ! unat (H data (word_of_nat i) mod m \<sigma>)"
  shows "testAndRemove H data \<sigma> = Inr (False, \<sigma>)"
proof -
  have "\<not> (\<forall>j\<in>set (seeds \<sigma>). buckets \<sigma> ! unat (H data j mod m \<sigma>))"
    using assms(3,4) seeds_member by blast
  then have "forSeeds (testAndRemove_test_body H data \<sigma>) (seeds \<sigma>) True = Inr False"
    using remove_test_loop [OF assms(1,2), of H data "seeds \<sigma>" True] by simp
  then show ?thesis by (simp add: testAndRemove_def)
qed

theorem failed_removal_changes_nothing_witness:
  "length (buckets exampleFilter) = unat (m exampleFilter) \<and> m exampleFilter \<noteq> 0 \<and>
   (1::nat) < unat (k exampleFilter) \<and>
   \<not> buckets exampleFilter ! unat (toyHash [0] (word_of_nat 1) mod m exampleFilter) \<and>
   testAndRemove toyHash [0] exampleFilter = Inr (False, exampleFilter)"
proof -
  have a: "length (buckets exampleFilter) = unat (m exampleFilter)"
    and b: "m exampleFilter \<noteq> 0" and c: "(1::nat) < unat (k exampleFilter)"
    and d: "\<not> buckets exampleFilter ! unat (toyHash [0] (word_of_nat 1) mod m exampleFilter)"
    by (simp_all add: exampleFilter_def toyHash_def)
  show ?thesis using failed_removal_changes_nothing [of exampleFilter 1 toyHash "[0]"] a b c d by simp
qed

section \<open>Reset\<close>

lemma test_after_reset:
  assumes "length (buckets \<sigma>) = unat (m \<sigma>)" and "m \<sigma> \<noteq> 0" and "k \<sigma> \<noteq> 0"
  shows "test H x (reset \<sigma>) = Inr (False, reset \<sigma>)"
proof -
  have "k (reset \<sigma>) \<noteq> 0" "m (reset \<sigma>) = m \<sigma>"
    "buckets (reset \<sigma>) = replicate (unat (m \<sigma>)) False"
    using assms by (simp_all add: reset_def)
  then show ?thesis
    using assms(2) bucket_in_range [OF assms(2), of "H x 0"]
    by (simp add: test_def seeds_nonempty bucketIndex_def bit_at_def)
qed

text \<open>
  C8. After \<^verbatim>\<open>reset()\<close>, \<^verbatim>\<open>test(x)\<close> returns false for every \<open>x\<close>, \<^verbatim>\<open>getCount()\<close> returns 0
  and every membership bit and collision flag is clear. The filter is any filter built
  by the constructor with \<open>0 < r < optimalM\<close> and \<open>optimalK > 0\<close> (which \<open>fpRate < 1\<close>
  gives) and then used for any sequence of calls that ran without a fault.
\<close>

theorem reset_clears_everything:
  assumes "NewDeletableBloomFilter optM optK r count0 = Inr \<sigma>0"
    and "r < optM" and "optK \<noteq> 0"
    and "run H cs \<sigma>0 = Inr (rs, \<sigma>)"
  shows "test H x (reset \<sigma>) = Inr (False, reset \<sigma>) \<and> getCount (reset \<sigma>) = 0 \<and>
         buckets (reset \<sigma>) = replicate (unat (optM - r)) False \<and>
         collisions (reset \<sigma>) = replicate (unat r) False"
proof -
  have s0: "length (buckets \<sigma>0) = unat (optM - r)" "length (collisions \<sigma>0) = unat r"
    "m \<sigma>0 = optM - r" "k \<sigma>0 = optK"
    using NewDeletableBloomFilter_Inr [OF assms(1)] by simp_all
  have sh: "sameShape \<sigma>0 \<sigma>" by (rule run_shape [OF assms(4)])
  have "optM - r \<noteq> 0" using assms(2) by auto
  with s0 sh assms(3) have "length (buckets \<sigma>) = unat (m \<sigma>)" "m \<sigma> \<noteq> 0" "k \<sigma> \<noteq> 0"
    by (simp_all add: sameShape_def)
  then have "test H x (reset \<sigma>) = Inr (False, reset \<sigma>)" by (rule test_after_reset)
  moreover have "getCount (reset \<sigma>) = 0" by (simp add: getCount_def reset_def)
  moreover have "buckets (reset \<sigma>) = replicate (unat (optM - r)) False"
    "collisions (reset \<sigma>) = replicate (unat r) False"
    using s0 sh by (simp_all add: reset_def sameShape_def)
  ultimately show ?thesis by simp
qed

theorem reset_clears_everything_witness:
  "NewDeletableBloomFilter 8 2 4 7 =
     Inr \<lparr>buckets = [False, False, False, False], collisions = [False, False, False, False],
          m = 4, regionSize = 1, k = 2, count = 7\<rparr> \<and>
   (4 :: 32 word) < 8 \<and> (2 :: 32 word) \<noteq> 0 \<and>
   run toyHash [Add [1]]
     \<lparr>buckets = [False, False, False, False], collisions = [False, False, False, False],
      m = 4, regionSize = 1, k = 2, count = 7\<rparr> =
     Inr ([None], exampleFilter\<lparr>count := 8\<rparr>) \<and>
   test toyHash [1] (reset (exampleFilter\<lparr>count := 8\<rparr>)) =
     Inr (False, reset (exampleFilter\<lparr>count := 8\<rparr>)) \<and>
   getCount (reset (exampleFilter\<lparr>count := 8\<rparr>)) = 0 \<and>
   buckets (reset (exampleFilter\<lparr>count := 8\<rparr>)) = [False, False, False, False] \<and>
   collisions (reset (exampleFilter\<lparr>count := 8\<rparr>)) = [False, False, False, False]"
proof -
  have a: "NewDeletableBloomFilter 8 2 4 7 =
     Inr \<lparr>buckets = [False, False, False, False], collisions = [False, False, False, False],
          m = 4, regionSize = 1, k = 2, count = 7\<rparr>"
    by code_simp
  have b: "(4 :: 32 word) < 8" and c: "(2 :: 32 word) \<noteq> 0" by simp_all
  have d: "run toyHash [Add [1]]
     \<lparr>buckets = [False, False, False, False], collisions = [False, False, False, False],
      m = 4, regionSize = 1, k = 2, count = 7\<rparr> =
     Inr ([None], exampleFilter\<lparr>count := 8\<rparr>)"
    by (simp add: eval_defs exampleFilter_def)
  have e: "replicate (unat (8 - 4 :: 32 word)) False = [False, False, False, False]"
    by code_simp
  show ?thesis
    using reset_clears_everything [OF a b c d, of "[1]"] a b c d e by simp
qed

lemma replicate_4: "replicate 4 x = [x, x, x, x]"
  by (simp add: numeral_eq_Suc)

section \<open>Count accounting\<close>

lemma add_body_count: "add_body H data i \<sigma> = Inr \<sigma>' \<Longrightarrow> count \<sigma>' = count \<sigma>"
  by (auto simp: add_body_def bindF_eq_Inr split: if_splits)

lemma add_count: "add H data \<sigma> = Inr \<sigma>' \<Longrightarrow> count \<sigma>' = count \<sigma> + 1"
  by (auto simp: add_def bindF_eq_Inr
      dest!: forSeeds_inv [where P = "\<lambda>t. count t = count \<sigma>"] add_body_count)

lemma testAndAdd_body_count:
  "testAndAdd_body H data i (b, \<sigma>) = Inr (b', \<sigma>') \<Longrightarrow> count \<sigma>' = count \<sigma>"
  by (auto simp: testAndAdd_body_def bindF_eq_Inr split: if_splits)

lemma testAndAdd_count: "testAndAdd H data \<sigma> = Inr (b, \<sigma>') \<Longrightarrow> count \<sigma>' = count \<sigma> + 1"
  by (auto simp: testAndAdd_def bindF_eq_Inr
      dest!: forSeeds_inv [where P = "\<lambda>t. count (snd t) = count \<sigma>"] testAndAdd_body_count)

lemma clear_body_count:
  "testAndRemove_clear_body H data i \<sigma> = Inr \<sigma>' \<Longrightarrow> count \<sigma>' = count \<sigma>"
  by (auto simp: testAndRemove_clear_body_def bindF_eq_Inr split: if_splits)

lemma testAndRemove_count:
  "testAndRemove H data \<sigma> = Inr (b, \<sigma>') \<Longrightarrow> count \<sigma>' = (if b then count \<sigma> - 1 else count \<sigma>)"
  by (auto simp: testAndRemove_def bindF_eq_Inr split: if_splits
      dest!: forSeeds_inv [where P = "\<lambda>t. count t = count \<sigma>"] clear_body_count)

lemma isRemoval_TestAndRemove [simp]: "isRemoval (TestAndRemove data, Some a) = a"
  by (cases a) simp_all

lemma exec_count:
  assumes "exec H c \<sigma> = Inr (r, \<sigma>')" and "c \<noteq> Reset"
  shows "count \<sigma>' = count \<sigma> + (if isAdd c then 1 else 0) - (if isRemoval (c, r) then 1 else 0)"
proof (cases c)
  case (Add data)
  then show ?thesis using assms by (auto simp: bindF_eq_Inr dest: add_count)
next
  case (Test data)
  then show ?thesis using assms by (auto simp: bindF_eq_Inr test_def dest: test_loop_state)
next
  case (TestAndAdd data)
  then show ?thesis using assms by (auto simp: bindF_eq_Inr dest: testAndAdd_count)
next
  case (TestAndRemove data)
  then show ?thesis using assms by (auto simp: bindF_eq_Inr dest!: testAndRemove_count)
next
  case Reset
  then show ?thesis using assms by simp
qed

lemma run_count:
  "run H cs \<sigma> = Inr (rs, \<sigma>') \<Longrightarrow> Reset \<notin> set cs \<Longrightarrow>
     count \<sigma>' = count \<sigma> + word_of_nat (adds cs) - word_of_nat (removals cs rs)"
proof (induction cs arbitrary: \<sigma> rs)
  case Nil
  then show ?case by (simp add: adds_def removals_def)
next
  case (Cons c cs)
  from Cons.prems(1) obtain r \<sigma>1 rs' where
    e: "exec H c \<sigma> = Inr (r, \<sigma>1)" and t: "run H cs \<sigma>1 = Inr (rs', \<sigma>')" and rs: "rs = r # rs'"
    by (auto simp: bindF_eq_Inr)
  have c: "c \<noteq> Reset" and cs: "Reset \<notin> set cs" using Cons.prems(2) by auto
  show ?case
    using Cons.IH [OF t cs] exec_count [OF e c] rs
    by (simp add: adds_def removals_def)
qed

text \<open>
  C3. The claim: after \<open>a\<close> calls of \<^verbatim>\<open>add\<close> or \<^verbatim>\<open>testAndAdd\<close> and \<open>d\<close> calls of
  \<^verbatim>\<open>testAndRemove\<close> that returned true, with no reset, \<^verbatim>\<open>getCount()\<close> is \<open>a - d\<close>. What
  holds: \<^verbatim>\<open>getCount()\<close> is the counter's value before the sequence (0 after a reset)
  plus \<open>a\<close> minus \<open>d\<close>, reduced modulo \<open>2^32\<close>. Calls of \<^verbatim>\<open>test\<close> and failed removals may
  be interleaved.
\<close>

theorem count_accounting:
  assumes "run H cs \<sigma> = Inr (rs, \<sigma>')" and "Reset \<notin> set cs"
  shows "uint (getCount \<sigma>') =
         (uint (getCount \<sigma>) + int (adds cs) - int (removals cs rs)) mod 2 ^ 32"
proof -
  have "getCount \<sigma>' = getCount \<sigma> + word_of_nat (adds cs) - word_of_nat (removals cs rs)"
    using run_count [OF assms] by (simp add: getCount_def)
  then have "uint (getCount \<sigma>') =
      uint (getCount \<sigma> + word_of_int (int (adds cs)) - word_of_int (int (removals cs rs)))"
    by simp
  also have "\<dots> = (uint (getCount \<sigma>) + int (adds cs) - int (removals cs rs)) mod 2 ^ 32"
    by (simp add: uint_word_ariths unsigned_of_nat take_bit_eq_mod zmod_int mod_simps)
  finally show ?thesis .
qed

theorem count_accounting_witness:
  "run toyHash [Add [1], TestAndAdd [1], TestAndRemove [1], Test [0]] emptyFilter =
     Inr ([None, Some True, Some True, Some False],
          \<lparr>buckets = [False, False, True, True], collisions = [False, False, True, True],
           m = 4, regionSize = 1, k = 2, count = 1\<rparr>) \<and>
   Reset \<notin> set [Add [1], TestAndAdd [1], TestAndRemove [1], Test [0]] \<and>
   uint (getCount \<lparr>buckets = [False, False, True, True],
           collisions = [False, False, True, True],
           m = 4, regionSize = 1, k = 2, count = 1\<rparr>) = (0 + 2 - 1) mod 2 ^ 32"
proof -
  have a: "run toyHash [Add [1], TestAndAdd [1], TestAndRemove [1], Test [0]] emptyFilter =
     Inr ([None, Some True, Some True, Some False],
          \<lparr>buckets = [False, False, True, True], collisions = [False, False, True, True],
           m = 4, regionSize = 1, k = 2, count = 1\<rparr>)"
    by (simp add: eval_defs emptyFilter_def)
  have b: "Reset \<notin> set [Add [1], TestAndAdd [1], TestAndRemove [1], Test [0]]"
    by simp
  show ?thesis
    using count_accounting [OF a b] a b
    by (simp add: adds_def removals_def emptyFilter_def getCount_def)
qed

text \<open>
  The claim as stated fails when \<open>d\<close> exceeds \<open>a\<close>: two \<^verbatim>\<open>add\<close>s of a buffer flag its
  regions, after which every \<^verbatim>\<open>testAndRemove\<close> of it returns true; after three of them
  \<open>a - d = -1\<close> and \<^verbatim>\<open>getCount()\<close> returns \<open>4294967295\<close>.
\<close>

theorem count_accounting_counterexample:
  "NewDeletableBloomFilter 8 2 4 0 = Inr emptyFilter \<and>
   run toyHash [Add [1], Add [1], TestAndRemove [1], TestAndRemove [1], TestAndRemove [1]]
       emptyFilter =
     Inr ([None, None, Some True, Some True, Some True],
          \<lparr>buckets = [False, False, True, True], collisions = [False, False, True, True],
           m = 4, regionSize = 1, k = 2, count = 4294967295\<rparr>) \<and>
   adds [Add [1], Add [1], TestAndRemove [1], TestAndRemove [1], TestAndRemove [1]] = 2 \<and>
   removals [Add [1], Add [1], TestAndRemove [1], TestAndRemove [1], TestAndRemove [1]]
     [None, None, Some True, Some True, Some True] = 3 \<and>
   uint (getCount \<lparr>buckets = [False, False, True, True],
           collisions = [False, False, True, True],
           m = 4, regionSize = 1, k = 2, count = 4294967295\<rparr>) \<noteq> 2 - 3"
  by (simp add: eval_defs emptyFilter_def adds_def removals_def replicate_4)

section \<open>Removal is gated by the collision flags\<close>

lemma nth_update_True: "j < length xs \<Longrightarrow> xs ! j \<Longrightarrow> xs[i := True] ! j"
  by (cases "i = j") simp_all

lemma add_body_pinned: "add_body H data i \<sigma> = Inr \<sigma>' \<Longrightarrow> pinned \<sigma> j \<Longrightarrow> pinned \<sigma>' j"
  by (auto simp: add_body_def bindF_eq_Inr bit_assign_Inr pinned_def regionFlagged_def
      nth_update_True split: if_splits)

lemma add_pinned: "add H data \<sigma> = Inr \<sigma>' \<Longrightarrow> pinned \<sigma> j \<Longrightarrow> pinned \<sigma>' j"
  by (auto simp: add_def bindF_eq_Inr pinned_def regionFlagged_def
      dest!: forSeeds_inv [where P = "\<lambda>t. pinned t j"] add_body_pinned)

lemma testAndAdd_body_pinned:
  "testAndAdd_body H data i (b, \<sigma>) = Inr (b', \<sigma>') \<Longrightarrow> pinned \<sigma> j \<Longrightarrow> pinned \<sigma>' j"
  by (auto simp: testAndAdd_body_def bindF_eq_Inr bit_assign_Inr pinned_def regionFlagged_def
      nth_update_True split: if_splits)

lemma testAndAdd_pinned:
  "testAndAdd H data \<sigma> = Inr (b, \<sigma>') \<Longrightarrow> pinned \<sigma> j \<Longrightarrow> pinned \<sigma>' j"
  by (auto simp: testAndAdd_def bindF_eq_Inr pinned_def regionFlagged_def
      dest!: forSeeds_inv [where P = "\<lambda>t. pinned (snd t) j"] testAndAdd_body_pinned)

lemma clear_body_pinned:
  "testAndRemove_clear_body H data i \<sigma> = Inr \<sigma>' \<Longrightarrow> pinned \<sigma> j \<Longrightarrow> pinned \<sigma>' j"
  by (auto simp: testAndRemove_clear_body_def bindF_eq_Inr bit_assign_Inr bit_at_Inr
      regionIndex_Inr pinned_def regionFlagged_def unat_div nth_list_update split: if_splits)

lemma testAndRemove_pinned:
  "testAndRemove H data \<sigma> = Inr (b, \<sigma>') \<Longrightarrow> pinned \<sigma> j \<Longrightarrow> pinned \<sigma>' j"
  by (auto simp: testAndRemove_def bindF_eq_Inr pinned_def regionFlagged_def split: if_splits
      dest!: forSeeds_inv [where P = "\<lambda>t. pinned t j"] clear_body_pinned)

lemma exec_pinned:
  "exec H c \<sigma> = Inr (r, \<sigma>') \<Longrightarrow> c \<noteq> Reset \<Longrightarrow> pinned \<sigma> j \<Longrightarrow> pinned \<sigma>' j"
  by (cases c)
     (auto simp: bindF_eq_Inr test_def
       dest: add_pinned test_loop_state testAndAdd_pinned testAndRemove_pinned)

text \<open>
  C7. Once the collision flag of a region is set, no call clears a membership bit in that
  region until a reset: over any sequence of calls without \<^verbatim>\<open>reset\<close>, a set bit whose
  region is flagged is still set, and its region still flagged, at the end. So
  \<^verbatim>\<open>testAndRemove\<close> clears a bit only when the flag of its region is unset.
\<close>

theorem flagged_region_bits_stay_set:
  assumes "run H cs \<sigma> = Inr (rs, \<sigma>')" and "Reset \<notin> set cs"
    and "regionFlagged \<sigma> j" and "j < length (buckets \<sigma>)" and "buckets \<sigma> ! j"
  shows "regionFlagged \<sigma>' j \<and> j < length (buckets \<sigma>') \<and> buckets \<sigma>' ! j"
proof -
  have "pinned \<sigma> j \<Longrightarrow> pinned \<sigma>' j"
    using assms(1,2)
  proof (induction cs arbitrary: \<sigma> rs)
    case Nil
    then show ?case by simp
  next
    case (Cons c cs)
    from Cons.prems(2) obtain r \<sigma>1 rs' where
      e: "exec H c \<sigma> = Inr (r, \<sigma>1)" and t: "run H cs \<sigma>1 = Inr (rs', \<sigma>')"
      by (auto simp: bindF_eq_Inr)
    have "pinned \<sigma>1 j" using exec_pinned [OF e] Cons.prems(1,3) by auto
    then show ?case using Cons.IH [OF _ t] Cons.prems(3) by simp
  qed
  then show ?thesis using assms(3-5) by (simp add: pinned_def)
qed


theorem flagged_region_bits_stay_set_witness:
  "run toyHash [TestAndRemove [1], Add [0], TestAndRemove [1, 0]]
       (exampleFilter\<lparr>collisions := [False, False, True, True]\<rparr>) =
     Inr ([Some True, None, Some True],
          \<lparr>buckets = [True, True, True, True], collisions = [False, False, True, True],
           m = 4, regionSize = 1, k = 2, count = 0\<rparr>) \<and>
   Reset \<notin> set [TestAndRemove [1], Add [0], TestAndRemove [1, 0]] \<and>
   regionFlagged (exampleFilter\<lparr>collisions := [False, False, True, True]\<rparr>) 2 \<and>
   2 < length (buckets (exampleFilter\<lparr>collisions := [False, False, True, True]\<rparr>)) \<and>
   buckets (exampleFilter\<lparr>collisions := [False, False, True, True]\<rparr>) ! 2 \<and>
   regionFlagged \<lparr>buckets = [True, True, True, True], collisions = [False, False, True, True],
           m = 4, regionSize = 1, k = 2, count = 0\<rparr> 2 \<and>
   [True, True, True, True] ! 2"
proof -
  have a: "run toyHash [TestAndRemove [1], Add [0], TestAndRemove [1, 0]]
       (exampleFilter\<lparr>collisions := [False, False, True, True]\<rparr>) =
     Inr ([Some True, None, Some True],
          \<lparr>buckets = [True, True, True, True], collisions = [False, False, True, True],
           m = 4, regionSize = 1, k = 2, count = 0\<rparr>)"
    by (simp add: eval_defs exampleFilter_def)
  have b: "Reset \<notin> set [TestAndRemove [1], Add [0], TestAndRemove [1, 0]]" by simp
  have c: "regionFlagged (exampleFilter\<lparr>collisions := [False, False, True, True]\<rparr>) 2"
    and d: "2 < length (buckets (exampleFilter\<lparr>collisions := [False, False, True, True]\<rparr>))"
    and e: "buckets (exampleFilter\<lparr>collisions := [False, False, True, True]\<rparr>) ! 2"
    by (simp_all add: regionFlagged_def exampleFilter_def)
  show ?thesis
    using flagged_region_bits_stay_set [OF a b c d e] a b c d e by simp
qed

section \<open>testAndAdd against test followed by add\<close>

lemma test_loop_total:
  assumes "length (buckets \<sigma>) = unat (m \<sigma>)" and "m \<sigma> \<noteq> 0"
  shows "test_loop H x is \<sigma> = Inr ((\<forall>i\<in>set is. buckets \<sigma> ! unat (H x i mod m \<sigma>)), \<sigma>)"
  using assms by (induction "is") (auto simp: bucketIndex_def bit_at_def bucket_in_range)

lemma update_set_bit: "i < length xs \<Longrightarrow> xs ! i \<Longrightarrow> xs[i := True] = xs"
  by (metis list_update_id)

lemma testAndAdd_body_unset:
  assumes "length (buckets \<sigma>) = unat (m \<sigma>)" and "m \<sigma> \<noteq> 0"
    and "\<not> buckets \<sigma> ! unat (H x i mod m \<sigma>)"
  shows "testAndAdd_body H x i (mem, \<sigma>) =
           Inr (False, \<sigma>\<lparr>buckets := (buckets \<sigma>)[unat (H x i mod m \<sigma>) := True]\<rparr>)"
  using assms bucket_in_range [OF assms(2), of "H x i"]
  by (simp add: testAndAdd_body_def bucketIndex_def bit_at_def bit_assign_def)

lemma add_body_unset:
  assumes "length (buckets \<sigma>) = unat (m \<sigma>)" and "m \<sigma> \<noteq> 0"
    and "\<not> buckets \<sigma> ! unat (H x i mod m \<sigma>)"
  shows "add_body H x i \<sigma> =
           Inr (\<sigma>\<lparr>buckets := (buckets \<sigma>)[unat (H x i mod m \<sigma>) := True]\<rparr>)"
  using assms bucket_in_range [OF assms(2), of "H x i"]
  by (simp add: add_body_def bucketIndex_def bit_at_def bit_assign_def)

lemma testAndAdd_body_set:
  assumes "length (buckets \<sigma>) = unat (m \<sigma>)" and "m \<sigma> \<noteq> 0"
    and "buckets \<sigma> ! unat (H x i mod m \<sigma>)"
  shows "testAndAdd_body H x i (mem, \<sigma>) =
           bindF (add_body H x i \<sigma>) (\<lambda>\<sigma>'. Inr (mem, \<sigma>'))"
  using assms bucket_in_range [OF assms(2), of "H x i"]
  by (auto simp: testAndAdd_body_def add_body_def bucketIndex_def bit_at_def bit_assign_def
      regionIndex_def update_set_bit)

lemma add_body_set:
  assumes "buckets \<sigma> ! unat (H x i mod m \<sigma>)" and "add_body H x i \<sigma> = Inr \<sigma>'"
  shows "buckets \<sigma>' = buckets \<sigma>"
  using assms
  by (auto simp: add_body_def bindF_eq_Inr bucketIndex_Inr bit_at_Inr split: if_splits)

lemma testAndAdd_loop_add_loop:
  assumes "length (buckets \<sigma>) = unat (m \<sigma>)" and "m \<sigma> \<noteq> 0"
  shows "forSeeds (testAndAdd_body H x) is (mem, \<sigma>) =
         bindF (forSeeds (add_body H x) is \<sigma>)
           (\<lambda>\<sigma>'. Inr (mem \<and> (\<forall>i\<in>set is. buckets \<sigma> ! unat (H x i mod m \<sigma>)), \<sigma>'))"
  using assms
proof (induction "is" arbitrary: mem \<sigma>)
  case Nil
  then show ?case by simp
next
  case (Cons i "is")
  show ?case
  proof (cases "buckets \<sigma> ! unat (H x i mod m \<sigma>)")
    case False
    let ?\<sigma>1 = "\<sigma>\<lparr>buckets := (buckets \<sigma>)[unat (H x i mod m \<sigma>) := True]\<rparr>"
    have wf: "length (buckets ?\<sigma>1) = unat (m ?\<sigma>1)" "m ?\<sigma>1 \<noteq> 0"
      using Cons.prems by simp_all
    have "testAndAdd_body H x i (mem, \<sigma>) = Inr (False, ?\<sigma>1)"
      using Cons.prems False by (rule testAndAdd_body_unset)
    moreover have "add_body H x i \<sigma> = Inr ?\<sigma>1"
      using Cons.prems False by (rule add_body_unset)
    ultimately show ?thesis
      using Cons.IH [OF wf, of False] False by simp
  next
    case True
    have ta: "testAndAdd_body H x i (mem, \<sigma>) = bindF (add_body H x i \<sigma>) (\<lambda>\<sigma>'. Inr (mem, \<sigma>'))"
      using Cons.prems True by (rule testAndAdd_body_set)
    show ?thesis
    proof (cases "add_body H x i \<sigma>")
      case (Inl e)
      then show ?thesis using ta by simp
    next
      case (Inr \<sigma>1)
      have b: "buckets \<sigma>1 = buckets \<sigma>"
        using True Inr by (rule add_body_set)
      have sh: "sameShape \<sigma> \<sigma>1" by (rule add_body_shape [OF Inr])
      have wf: "length (buckets \<sigma>1) = unat (m \<sigma>1)" "m \<sigma>1 \<noteq> 0"
        using Cons.prems sh by (simp_all add: sameShape_def)
      have "m \<sigma>1 = m \<sigma>" using sh by (simp add: sameShape_def)
      then show ?thesis
        using ta Inr Cons.IH [OF wf, of mem] b True by simp
    qed
  qed
qed

lemma add_body_bucket_mono:
  "add_body H x i \<sigma> = Inr \<sigma>' \<Longrightarrow> j < length (buckets \<sigma>) \<Longrightarrow> buckets \<sigma> ! j \<Longrightarrow>
     buckets \<sigma>' ! j"
  by (auto simp: add_body_def bindF_eq_Inr bit_assign_Inr nth_update_True split: if_splits)

lemma add_body_sets_bit:
  "add_body H x i \<sigma> = Inr \<sigma>' \<Longrightarrow>
     m \<sigma> \<noteq> 0 \<and> unat (H x i mod m \<sigma>) < length (buckets \<sigma>') \<and>
     buckets \<sigma>' ! unat (H x i mod m \<sigma>)"
  by (auto simp: add_body_def bindF_eq_Inr bit_assign_Inr bit_at_Inr bucketIndex_Inr
      split: if_splits)

lemma add_loop_bucket_mono:
  assumes "forSeeds (add_body H x) is \<sigma> = Inr \<sigma>'"
    and "j < length (buckets \<sigma>)" and "buckets \<sigma> ! j"
  shows "buckets \<sigma>' ! j"
proof -
  have "sameShape \<sigma> \<sigma>' \<and> buckets \<sigma>' ! j"
    using assms(1)
  proof (rule forSeeds_inv [where P = "\<lambda>t. sameShape \<sigma> t \<and> buckets t ! j"])
    show "sameShape \<sigma> \<sigma> \<and> buckets \<sigma> ! j" using assms(3) by simp
  next
    fix i t t'
    assume "sameShape \<sigma> t \<and> buckets t ! j" and b: "add_body H x i t = Inr t'"
    then show "sameShape \<sigma> t' \<and> buckets t' ! j"
      using add_body_shape [OF b] add_body_bucket_mono [OF b, of j] assms(2)
      by (auto simp: sameShape_def)
  qed
  then show ?thesis by simp
qed

lemma add_loop_sets_bits:
  "forSeeds (add_body H x) is \<sigma> = Inr \<sigma>' \<Longrightarrow> i \<in> set is \<Longrightarrow>
     m \<sigma> \<noteq> 0 \<and> unat (H x i mod m \<sigma>) < length (buckets \<sigma>') \<and>
     buckets \<sigma>' ! unat (H x i mod m \<sigma>)"
proof (induction "is" arbitrary: \<sigma>)
  case Nil
  then show ?case by simp
next
  case (Cons a "is")
  from Cons.prems(1) obtain \<sigma>1 where b: "add_body H x a \<sigma> = Inr \<sigma>1"
    and l: "forSeeds (add_body H x) is \<sigma>1 = Inr \<sigma>'"
    by (auto simp: bindF_eq_Inr)
  have sh: "sameShape \<sigma> \<sigma>1" by (rule add_body_shape [OF b])
  have sh': "sameShape \<sigma>1 \<sigma>'" by (rule add_loop_shape [OF l])
  show ?case
  proof (cases "i = a")
    case True
    have s: "m \<sigma> \<noteq> 0 \<and> unat (H x a mod m \<sigma>) < length (buckets \<sigma>1) \<and>
        buckets \<sigma>1 ! unat (H x a mod m \<sigma>)"
      by (rule add_body_sets_bit [OF b])
    then have "buckets \<sigma>' ! unat (H x a mod m \<sigma>)"
      using add_loop_bucket_mono [OF l] by simp
    then show ?thesis using s sh' True by (simp add: sameShape_def)
  next
    case False
    then have "i \<in> set is" using Cons.prems(2) by simp
    then show ?thesis using Cons.IH [OF l] sh by (simp add: sameShape_def)
  qed
qed

text \<open>
  C5. The claim: \<^verbatim>\<open>testAndAdd(x)\<close> is \<^verbatim>\<open>test(x)\<close> followed by \<^verbatim>\<open>add(x)\<close>: it returns what
  \<^verbatim>\<open>test\<close> returns on the filter before the call (in particular false for an item never
  seen before, after which \<^verbatim>\<open>test(x)\<close> returns true) and leaves the filter as \<^verbatim>\<open>add\<close>
  leaves it. What holds, on a filter whose bucket vector has \<open>m\<close> elements as the
  constructor builds it: the result and the final filter (or the fault) of
  \<^verbatim>\<open>testAndAdd\<close> are those of \<^verbatim>\<open>test\<close> followed by \<^verbatim>\<open>add\<close>; the result is true exactly when
  all \<open>k\<close> bits of the item were set before the call, so false whenever one of them was
  unset; and \<^verbatim>\<open>test(x)\<close> returns true afterwards.
\<close>

theorem testAndAdd_is_test_then_add:
  assumes "length (buckets \<sigma>) = unat (m \<sigma>)"
  shows "testAndAdd H x \<sigma> =
           bindF (test H x \<sigma>) (\<lambda>t. bindF (add H x (snd t)) (\<lambda>\<sigma>'. Inr (fst t, \<sigma>'))) \<and>
         (\<forall>b \<sigma>'. testAndAdd H x \<sigma> = Inr (b, \<sigma>') \<longrightarrow>
            test H x \<sigma>' = Inr (True, \<sigma>') \<and>
            (b \<longleftrightarrow> (\<forall>i<unat (k \<sigma>). buckets \<sigma> ! unat (H x (word_of_nat i) mod m \<sigma>))))"
proof (cases "m \<sigma> = 0")
  case True
  show ?thesis
  proof (cases "seeds \<sigma>")
    case Nil
    then have "k \<sigma> = 0" by (simp add: seeds_def unat_eq_0)
    then show ?thesis using Nil
      by (simp add: testAndAdd_def test_def add_def seeds_def)
  next
    case (Cons i "is")
    then show ?thesis using True
      by (simp add: testAndAdd_def test_def add_def testAndAdd_body_def bucketIndex_def)
  qed
next
  case False
  let ?all = "\<forall>i\<in>set (seeds \<sigma>). buckets \<sigma> ! unat (H x i mod m \<sigma>)"
  have all: "?all \<longleftrightarrow> (\<forall>i<unat (k \<sigma>). buckets \<sigma> ! unat (H x (word_of_nat i) mod m \<sigma>))"
    by (auto simp: seeds_def)
  have t: "test H x \<sigma> = Inr (?all, \<sigma>)"
    using test_loop_total [OF assms False] by (simp add: test_def)
  have ta: "testAndAdd H x \<sigma> =
      bindF (forSeeds (add_body H x) (seeds \<sigma>) \<sigma>) (\<lambda>\<sigma>'. Inr (?all, \<sigma>'\<lparr>count := count \<sigma>' + 1\<rparr>))"
    using testAndAdd_loop_add_loop [OF assms False, of H x "seeds \<sigma>" True]
    by (cases "forSeeds (add_body H x) (seeds \<sigma>) \<sigma>") (simp_all add: testAndAdd_def)
  have eq: "testAndAdd H x \<sigma> =
           bindF (test H x \<sigma>) (\<lambda>t. bindF (add H x (snd t)) (\<lambda>\<sigma>'. Inr (fst t, \<sigma>')))"
    using t ta by (cases "forSeeds (add_body H x) (seeds \<sigma>) \<sigma>") (simp_all add: add_def)
  have after: "test H x \<sigma>' = Inr (True, \<sigma>') \<and> (b \<longleftrightarrow> ?all)"
    if r: "testAndAdd H x \<sigma> = Inr (b, \<sigma>')" for b \<sigma>'
  proof -
    from r ta obtain \<sigma>1 where l: "forSeeds (add_body H x) (seeds \<sigma>) \<sigma> = Inr \<sigma>1"
      and b: "b = ?all" and s: "\<sigma>' = \<sigma>1\<lparr>count := count \<sigma>1 + 1\<rparr>"
      by (auto simp: bindF_eq_Inr)
    have sh: "sameShape \<sigma> \<sigma>1" by (rule add_loop_shape [OF l])
    have wf: "length (buckets \<sigma>') = unat (m \<sigma>')" "m \<sigma>' \<noteq> 0"
      using assms False sh s by (simp_all add: sameShape_def)
    have "\<forall>i\<in>set (seeds \<sigma>'). buckets \<sigma>' ! unat (H x i mod m \<sigma>')"
      using add_loop_sets_bits [OF l] sh s by (simp add: sameShape_def seeds_def)
    then show ?thesis
      using test_loop_total [OF wf, of H x "seeds \<sigma>'"] b by (simp add: test_def)
  qed
  show ?thesis using eq after all by simp
qed


theorem testAndAdd_is_test_then_add_witness:
  "length (buckets emptyFilter) = unat (m emptyFilter) \<and>
   testAndAdd toyHash [1] emptyFilter = Inr (False, exampleFilter) \<and>
   bindF (test toyHash [1] emptyFilter)
     (\<lambda>t. bindF (add toyHash [1] (snd t)) (\<lambda>\<sigma>'. Inr (fst t, \<sigma>'))) =
     Inr (False, exampleFilter) \<and>
   test toyHash [1] exampleFilter = Inr (True, exampleFilter)"
proof -
  have a: "length (buckets emptyFilter) = unat (m emptyFilter)"
    by (simp add: emptyFilter_def)
  have b: "testAndAdd toyHash [1] emptyFilter = Inr (False, exampleFilter)"
    by (simp add: eval_defs emptyFilter_def exampleFilter_def)
  note c = testAndAdd_is_test_then_add [OF a, of toyHash "[1]"]
  from c b have "test toyHash [1] exampleFilter = Inr (True, exampleFilter)" by blast
  moreover from c b have "bindF (test toyHash [1] emptyFilter)
     (\<lambda>t. bindF (add toyHash [1] (snd t)) (\<lambda>\<sigma>'. Inr (fst t, \<sigma>'))) =
     Inr (False, exampleFilter)" by simp
  ultimately show ?thesis using a b by simp
qed

text \<open>
  The parenthesis of the claim fails for an item never seen before whose bits are all
  set already: after \<^verbatim>\<open>add\<close> of the buffer \<open>[1]\<close>, \<^verbatim>\<open>testAndAdd\<close> of the colliding buffer
  \<open>[1, 0]\<close>, which was never passed to any call, returns true.
\<close>

theorem testAndAdd_unseen_item_counterexample:
  "run toyHash [Add [1], TestAndAdd [1, 0]] emptyFilter =
     Inr ([None, Some True],
          \<lparr>buckets = [False, False, True, True], collisions = [False, False, True, True],
           m = 4, regionSize = 1, k = 2, count = 2\<rparr>) \<and>
   [1, 0] \<noteq> [1 :: 8 word]"
  by (simp add: eval_defs emptyFilter_def)

section \<open>No false negatives\<close>

lemma sameShape_bucketOf: "sameShape \<sigma> \<sigma>' \<Longrightarrow> bucketOf H \<sigma>' = bucketOf H \<sigma>"
  by (auto simp: sameShape_def bucketOf_def fun_eq_iff)

lemma sameShape_hits: "sameShape \<sigma> \<sigma>' \<Longrightarrow> hits H \<sigma>' = hits H \<sigma>"
  by (auto simp: hits_def sameShape_bucketOf fun_eq_iff)

lemma sameShape_load: "sameShape \<sigma> \<sigma>' \<Longrightarrow> load H \<sigma>' = load H \<sigma>"
  by (auto simp: load_def sameShape_hits sameShape_seeds fun_eq_iff)

lemma add_body_backed:
  assumes "add_body H x i \<sigma> = Inr \<sigma>'" and "backed \<sigma> c"
  shows "backed \<sigma>' (c(bucketOf H \<sigma> x i := c (bucketOf H \<sigma> x i) + 1))"
proof -
  let ?h = "bucketOf H \<sigma> x i"
  from assms(1) have m: "m \<sigma> \<noteq> 0" and hb: "?h < length (buckets \<sigma>)"
    by (auto simp: add_body_def bindF_eq_Inr bucketIndex_Inr bit_at_Inr bucketOf_def)
  show ?thesis
  proof (cases "buckets \<sigma> ! ?h")
    case True
    with assms(1) m hb have rs: "regionSize \<sigma> \<noteq> 0"
      and g: "?h div unat (regionSize \<sigma>) < length (collisions \<sigma>)"
      and s: "\<sigma>' = \<sigma>\<lparr>collisions := (collisions \<sigma>)[?h div unat (regionSize \<sigma>) := True]\<rparr>"
      by (auto simp: add_body_def bindF_eq_Inr bucketIndex_Inr bit_at_Inr bit_assign_Inr
          regionIndex_Inr bucketOf_def unat_div)
    have fl: "regionFlagged \<sigma>' ?h" using rs g s by (simp add: regionFlagged_def)
    have mono: "regionFlagged \<sigma> j \<Longrightarrow> regionFlagged \<sigma>' j" for j
      using s by (auto simp: regionFlagged_def nth_update_True)
    show ?thesis
      using assms(2) True hb m fl mono s
      by (auto simp: backed_def)
  next
    case False
    with assms(1) m hb have s: "\<sigma>' = \<sigma>\<lparr>buckets := (buckets \<sigma>)[?h := True]\<rparr>"
      by (auto simp: add_body_def bindF_eq_Inr bucketIndex_Inr bit_at_Inr bit_assign_Inr
          bucketOf_def)
    have "\<not> 1 \<le> c ?h" using assms(2) False unfolding backed_def by blast
    then have c0: "c ?h = 0" by simp
    have mono: "regionFlagged \<sigma> j \<Longrightarrow> regionFlagged \<sigma>' j" for j
      using s by (auto simp: regionFlagged_def)
    show ?thesis
      using assms(2) hb m c0 mono s
      by (auto simp: backed_def nth_update_True)
  qed
qed

lemma add_loop_backed:
  "forSeeds (add_body H x) is \<sigma> = Inr \<sigma>' \<Longrightarrow> backed \<sigma> c \<Longrightarrow>
     backed \<sigma>' (\<lambda>j. c j + hits H \<sigma> x is j)"
proof (induction "is" arbitrary: \<sigma> c)
  case Nil
  then show ?case by (simp add: hits_def)
next
  case (Cons i "is")
  from Cons.prems(1) obtain \<sigma>1 where b: "add_body H x i \<sigma> = Inr \<sigma>1"
    and l: "forSeeds (add_body H x) is \<sigma>1 = Inr \<sigma>'"
    by (auto simp: bindF_eq_Inr)
  have sh: "sameShape \<sigma> \<sigma>1" by (rule add_body_shape [OF b])
  have "backed \<sigma>' (\<lambda>j. (c(bucketOf H \<sigma> x i := c (bucketOf H \<sigma> x i) + 1)) j + hits H \<sigma>1 x is j)"
    by (rule Cons.IH [OF l add_body_backed [OF b Cons.prems(2)]])
  moreover have "(\<lambda>j. (c(bucketOf H \<sigma> x i := c (bucketOf H \<sigma> x i) + 1)) j + hits H \<sigma>1 x is j) =
      (\<lambda>j. c j + hits H \<sigma> x (i # is) j)"
    by (auto simp: fun_eq_iff hits_def sameShape_bucketOf [OF sh])
  ultimately show ?case by simp
qed

lemma backed_shape:
  "backed \<sigma> c \<Longrightarrow> sameShape \<sigma> \<sigma>' \<Longrightarrow> buckets \<sigma>' = buckets \<sigma> \<Longrightarrow>
     collisions \<sigma>' = collisions \<sigma> \<Longrightarrow> backed \<sigma>' c"
  by (simp add: backed_def regionFlagged_def sameShape_def)

lemma add_backed:
  assumes "add H x \<sigma> = Inr \<sigma>'" and "backed \<sigma> (load H \<sigma> S)"
  shows "backed \<sigma>' (load H \<sigma>' (x # S))"
proof -
  from assms(1) obtain \<sigma>1 where l: "forSeeds (add_body H x) (seeds \<sigma>) \<sigma> = Inr \<sigma>1"
    and s: "\<sigma>' = \<sigma>1\<lparr>count := count \<sigma>1 + 1\<rparr>"
    by (auto simp: add_def bindF_eq_Inr)
  have sh: "sameShape \<sigma> \<sigma>1" by (rule add_loop_shape [OF l])
  have sh': "sameShape \<sigma>1 \<sigma>'" using s by (simp add: sameShape_def)
  have sh2: "sameShape \<sigma> \<sigma>'" by (rule sameShape_trans [OF sh sh'])
  have "backed \<sigma>1 (\<lambda>j. load H \<sigma> S j + hits H \<sigma> x (seeds \<sigma>) j)"
    by (rule add_loop_backed [OF l assms(2)])
  moreover have "(\<lambda>j. load H \<sigma> S j + hits H \<sigma> x (seeds \<sigma>) j) = load H \<sigma>' (x # S)"
    by (auto simp: fun_eq_iff sameShape_load [OF sh2]) (simp add: load_def)
  ultimately have "backed \<sigma>1 (load H \<sigma>' (x # S))" by simp
  then show ?thesis using sh' s by (auto intro: backed_shape)
qed


lemma testAndAdd_body_add_body:
  "testAndAdd_body H x i (mem, \<sigma>) = Inr (mem', \<sigma>') \<Longrightarrow> add_body H x i \<sigma> = Inr \<sigma>'"
  by (auto simp: testAndAdd_body_def add_body_def bindF_eq_Inr bit_at_Inr bit_assign_Inr
      update_set_bit split: if_splits)

lemma testAndAdd_loop_add:
  "forSeeds (testAndAdd_body H x) is (mem, \<sigma>) = Inr (mem', \<sigma>') \<Longrightarrow>
     forSeeds (add_body H x) is \<sigma> = Inr \<sigma>'"
proof (induction "is" arbitrary: mem \<sigma>)
  case Nil
  then show ?case by simp
next
  case (Cons i "is")
  from Cons.prems obtain mem1 \<sigma>1 where b: "testAndAdd_body H x i (mem, \<sigma>) = Inr (mem1, \<sigma>1)"
    and l: "forSeeds (testAndAdd_body H x) is (mem1, \<sigma>1) = Inr (mem', \<sigma>')"
    by (auto simp: bindF_eq_Inr)
  show ?case
    using testAndAdd_body_add_body [OF b] Cons.IH [OF l] by simp
qed

lemma testAndAdd_add: "testAndAdd H x \<sigma> = Inr (b, \<sigma>') \<Longrightarrow> add H x \<sigma> = Inr \<sigma>'"
  by (auto simp: testAndAdd_def add_def bindF_eq_Inr dest!: testAndAdd_loop_add)

lemma clear_body_backed:
  assumes "testAndRemove_clear_body H z i \<sigma> = Inr \<sigma>'"
    and "\<not> regionFlagged \<sigma> (bucketOf H \<sigma> z i) \<longrightarrow> c (bucketOf H \<sigma> z i) = (0::nat)"
    and "\<forall>j. 1 \<le> c j \<longrightarrow> j < length (buckets \<sigma>) \<and> buckets \<sigma> ! j"
  shows "collisions \<sigma>' = collisions \<sigma> \<and>
         (\<forall>j. 1 \<le> c j \<longrightarrow> j < length (buckets \<sigma>') \<and> buckets \<sigma>' ! j)"
  using assms
  by (auto simp: testAndRemove_clear_body_def bindF_eq_Inr bit_assign_Inr bit_at_Inr
      regionIndex_Inr bucketIndex_Inr regionFlagged_def bucketOf_def unat_div nth_list_update
      split: if_splits)

lemma clear_loop_backed:
  assumes "forSeeds (testAndRemove_clear_body H z) is \<sigma> = Inr \<sigma>'"
    and "\<forall>i\<in>set is. \<not> regionFlagged \<sigma> (bucketOf H \<sigma> z i) \<longrightarrow>
           c (bucketOf H \<sigma> z i) = (0::nat)"
    and "\<forall>j. 1 \<le> c j \<longrightarrow> j < length (buckets \<sigma>) \<and> buckets \<sigma> ! j"
  shows "sameShape \<sigma> \<sigma>' \<and> collisions \<sigma>' = collisions \<sigma> \<and>
         (\<forall>j. 1 \<le> c j \<longrightarrow> j < length (buckets \<sigma>') \<and> buckets \<sigma>' ! j)"
  using assms(1)
proof (rule forSeeds_inv [where P = "\<lambda>t. sameShape \<sigma> t \<and> collisions t = collisions \<sigma> \<and>
         (\<forall>j. 1 \<le> c j \<longrightarrow> j < length (buckets t) \<and> buckets t ! j)"])
  show "sameShape \<sigma> \<sigma> \<and> collisions \<sigma> = collisions \<sigma> \<and>
      (\<forall>j. 1 \<le> c j \<longrightarrow> j < length (buckets \<sigma>) \<and> buckets \<sigma> ! j)"
    using assms(3) by simp
next
  fix i t t'
  assume i: "i \<in> set is"
    and P: "sameShape \<sigma> t \<and> collisions t = collisions \<sigma> \<and>
         (\<forall>j. 1 \<le> c j \<longrightarrow> j < length (buckets t) \<and> buckets t ! j)"
    and b: "testAndRemove_clear_body H z i t = Inr t'"
  have bo: "bucketOf H t = bucketOf H \<sigma>" using P by (simp add: sameShape_bucketOf)
  have fl: "regionFlagged t = regionFlagged \<sigma>"
    using P by (auto simp: regionFlagged_def sameShape_def fun_eq_iff)
  have "\<not> regionFlagged t (bucketOf H t z i) \<longrightarrow> c (bucketOf H t z i) = 0"
    using assms(2) i bo fl by simp
  then have "collisions t' = collisions t \<and>
         (\<forall>j. 1 \<le> c j \<longrightarrow> j < length (buckets t') \<and> buckets t' ! j)"
    using clear_body_backed [OF b] P by blast
  moreover have "sameShape \<sigma> t'"
    using P clear_body_shape [OF b] by (blast intro: sameShape_trans)
  ultimately show "sameShape \<sigma> t' \<and> collisions t' = collisions \<sigma> \<and>
         (\<forall>j. 1 \<le> c j \<longrightarrow> j < length (buckets t') \<and> buckets t' ! j)"
    using P by simp
qed

lemma hits_seed: "i \<in> set is \<Longrightarrow> 1 \<le> hits H \<sigma> x is (bucketOf H \<sigma> x i)"
  by (induction "is") (auto simp: hits_def)

lemma load_remove1:
  "z \<in> set S \<Longrightarrow> load H \<sigma> S j = hits H \<sigma> z (seeds \<sigma>) j + load H \<sigma> (remove1 z S) j"
  by (simp add: load_def sum_list_map_remove1)

lemma testAndRemove_backed:
  assumes "testAndRemove H z \<sigma> = Inr (True, \<sigma>')" and "backed \<sigma> (load H \<sigma> S)"
    and "z \<in> set S"
  shows "backed \<sigma>' (load H \<sigma>' (remove1 z S))"
proof -
  let ?c = "load H \<sigma> S" and ?c' = "load H \<sigma> (remove1 z S)"
  from assms(1) obtain \<sigma>1 where l: "forSeeds (testAndRemove_clear_body H z) (seeds \<sigma>) \<sigma> = Inr \<sigma>1"
    and s: "\<sigma>' = \<sigma>1\<lparr>count := count \<sigma>1 - 1\<rparr>"
    by (auto simp: testAndRemove_def bindF_eq_Inr split: if_splits)
  have le: "?c' j \<le> ?c j" for j using load_remove1 [OF assms(3)] by simp
  have a: "\<forall>i\<in>set (seeds \<sigma>). \<not> regionFlagged \<sigma> (bucketOf H \<sigma> z i) \<longrightarrow>
      ?c' (bucketOf H \<sigma> z i) = 0"
  proof (intro ballI impI)
    fix i assume i: "i \<in> set (seeds \<sigma>)" and nf: "\<not> regionFlagged \<sigma> (bucketOf H \<sigma> z i)"
    have "\<not> 2 \<le> ?c (bucketOf H \<sigma> z i)" using assms(2) nf unfolding backed_def by blast
    moreover have "1 \<le> hits H \<sigma> z (seeds \<sigma>) (bucketOf H \<sigma> z i)" by (rule hits_seed [OF i])
    ultimately show "?c' (bucketOf H \<sigma> z i) = 0"
      using load_remove1 [OF assms(3), of H \<sigma> "bucketOf H \<sigma> z i"] by simp
  qed
  have b: "\<forall>j. 1 \<le> ?c' j \<longrightarrow> j < length (buckets \<sigma>) \<and> buckets \<sigma> ! j"
  proof (intro allI impI)
    fix j assume "1 \<le> ?c' j"
    then have "1 \<le> ?c j" using le [of j] by simp
    then show "j < length (buckets \<sigma>) \<and> buckets \<sigma> ! j"
      using assms(2) unfolding backed_def by blast
  qed
  note r = clear_loop_backed [OF l a b]
  have sh: "sameShape \<sigma> \<sigma>'" using r s by (simp add: sameShape_def)
  have "backed \<sigma>' ?c'"
    unfolding backed_def
  proof (intro allI conjI impI)
    fix j assume j: "1 \<le> ?c' j"
    then have "1 \<le> ?c j" using le [of j] by simp
    then have "m \<sigma> \<noteq> 0" using assms(2) unfolding backed_def by blast
    then show "m \<sigma>' \<noteq> 0" using sh by (simp add: sameShape_def)
    show "j < length (buckets \<sigma>')" using r s j by simp
    show "buckets \<sigma>' ! j" using r s j by simp
  next
    fix j assume "2 \<le> ?c' j"
    then have "2 \<le> ?c j" using le [of j] by simp
    then have "regionFlagged \<sigma> j" using assms(2) unfolding backed_def by blast
    then show "regionFlagged \<sigma>' j"
      using r s by (simp add: regionFlagged_def sameShape_def)
  qed
  then show ?thesis by (simp add: sameShape_load [OF sh])
qed


lemma testAndRemove_False: "testAndRemove H z \<sigma> = Inr (False, \<sigma>') \<Longrightarrow> \<sigma>' = \<sigma>"
  by (auto simp: testAndRemove_def bindF_eq_Inr split: if_splits)

lemma reset_backed: "backed (reset \<sigma>) (load H (reset \<sigma>) [])"
  by (simp add: backed_def load_def)

lemma exec_backed:
  assumes "exec H c \<sigma> = Inr (r, \<sigma>')" and "backed \<sigma> (load H \<sigma> S0)"
    and "holdings S0 ((c, r) # t) = Some S"
  shows "\<exists>S1. backed \<sigma>' (load H \<sigma>' S1) \<and> holdings S1 t = Some S"
proof (cases c)
  case (Add x)
  then show ?thesis using assms by (auto simp: bindF_eq_Inr dest: add_backed)
next
  case (Test x)
  then show ?thesis using assms by (auto simp: bindF_eq_Inr test_def dest: test_loop_state)
next
  case (TestAndAdd x)
  then show ?thesis using assms by (auto simp: bindF_eq_Inr dest!: testAndAdd_add dest: add_backed)
next
  case (TestAndRemove z)
  with assms(1) obtain b where t: "testAndRemove H z \<sigma> = Inr (b, \<sigma>')" and r: "r = Some b"
    by (auto simp: bindF_eq_Inr)
  show ?thesis
  proof (cases b)
    case True
    then have z: "z \<in> set S0" and h: "holdings (remove1 z S0) t = Some S"
      using assms(3) TestAndRemove r by (auto split: if_splits)
    have "backed \<sigma>' (load H \<sigma>' (remove1 z S0))"
      using t True assms(2) z by (auto intro: testAndRemove_backed)
    then show ?thesis using h by blast
  next
    case False
    then have "\<sigma>' = \<sigma>" using t by (auto dest: testAndRemove_False)
    then show ?thesis using assms(2,3) TestAndRemove r False by auto
  qed
next
  case Reset
  then show ?thesis using assms(1,3) reset_backed [of \<sigma> H] by auto
qed

lemma run_backed:
  "run H cs \<sigma> = Inr (rs, \<sigma>') \<Longrightarrow> backed \<sigma> (load H \<sigma> S0) \<Longrightarrow>
     holdings S0 (zip cs rs) = Some S \<Longrightarrow> backed \<sigma>' (load H \<sigma>' S)"
proof (induction cs arbitrary: \<sigma> rs S0)
  case Nil
  then show ?case by simp
next
  case (Cons c cs)
  from Cons.prems(1) obtain r \<sigma>1 rs' where
    e: "exec H c \<sigma> = Inr (r, \<sigma>1)" and t: "run H cs \<sigma>1 = Inr (rs', \<sigma>')" and rs: "rs = r # rs'"
    by (auto simp: bindF_eq_Inr)
  have "holdings S0 ((c, r) # zip cs rs') = Some S" using Cons.prems(3) rs by simp
  from exec_backed [OF e Cons.prems(2) this] obtain S1
    where "backed \<sigma>1 (load H \<sigma>1 S1)" and "holdings S1 (zip cs rs') = Some S" by blast
  then show ?case using Cons.IH [OF t] by blast
qed

lemma test_loop_all_set:
  "\<forall>i\<in>set is. m \<sigma> \<noteq> 0 \<and> bucketOf H \<sigma> x i < length (buckets \<sigma>) \<and>
       buckets \<sigma> ! bucketOf H \<sigma> x i \<Longrightarrow>
     test_loop H x is \<sigma> = Inr (True, \<sigma>)"
  by (induction "is") (auto simp: bucketIndex_def bit_at_def bucketOf_def)

lemma backed_test:
  assumes "backed \<sigma> (load H \<sigma> S)" and "x \<in> set S"
  shows "test H x \<sigma> = Inr (True, \<sigma>)"
proof -
  have "1 \<le> load H \<sigma> S (bucketOf H \<sigma> x i)" if "i \<in> set (seeds \<sigma>)" for i
    using hits_seed [OF that, of H \<sigma> x] load_remove1 [OF assms(2), of H \<sigma> "bucketOf H \<sigma> x i"]
    by simp
  then have "\<forall>i\<in>set (seeds \<sigma>). m \<sigma> \<noteq> 0 \<and> bucketOf H \<sigma> x i < length (buckets \<sigma>) \<and>
       buckets \<sigma> ! bucketOf H \<sigma> x i"
    using assms(1) unfolding backed_def by blast
  then show ?thesis unfolding test_def by (rule test_loop_all_set)
qed

lemma backed_nothing: "backed \<sigma> (load H \<sigma> [])"
  by (simp add: backed_def load_def)

lemma held_item_tests_true:
  assumes "run H cs \<sigma> = Inr (rs, \<sigma>')" and "holdings [] (zip cs rs) = Some S"
    and "x \<in> set S"
  shows "test H x \<sigma>' = Inr (True, \<sigma>')"
  using run_backed [OF assms(1) backed_nothing assms(2)] assms(3) by (rule backed_test)

lemma holdings_keeps:
  "holdings S0 t = Some S \<Longrightarrow> x \<in> set S0 \<Longrightarrow>
     \<forall>p\<in>set t. fst p \<noteq> Reset \<and> p \<noteq> (TestAndRemove x, Some True) \<Longrightarrow> x \<in> set S"
proof (induction S0 t rule: holdings.induct)
  case (5 S z r t)
  then show ?case by (auto split: if_splits)
qed auto

text \<open>
  C2. The claim: if \<^verbatim>\<open>add(x)\<close> was called and no later \<^verbatim>\<open>testAndRemove(x)\<close> returned true,
  then \<^verbatim>\<open>test(x)\<close> returns true, whatever other calls are interleaved. What holds: the
  same, provided that every \<^verbatim>\<open>testAndRemove\<close> that returned true, before or after the
  \<^verbatim>\<open>add(x)\<close>, was called on an item held at that moment (added and not yet removed, so
  no false positive was removed), that no \<^verbatim>\<open>reset\<close> followed the \<^verbatim>\<open>add(x)\<close>, and that
  no call faulted. The filter before the first call is arbitrary.
\<close>

theorem no_false_negatives:
  assumes "run H pre \<sigma>0 = Inr (rs1, \<sigma>1)" and "holdings [] (zip pre rs1) = Some S1"
    and "add H x \<sigma>1 = Inr \<sigma>2"
    and "run H post \<sigma>2 = Inr (rs2, \<sigma>')" and "holdings (x # S1) (zip post rs2) = Some S"
    and "\<forall>p\<in>set (zip post rs2). fst p \<noteq> Reset \<and> p \<noteq> (TestAndRemove x, Some True)"
  shows "test H x \<sigma>' = Inr (True, \<sigma>')"
proof -
  have "backed \<sigma>1 (load H \<sigma>1 S1)"
    by (rule run_backed [OF assms(1) backed_nothing assms(2)])
  then have "backed \<sigma>2 (load H \<sigma>2 (x # S1))" by (rule add_backed [OF assms(3)])
  then have "backed \<sigma>' (load H \<sigma>' S)" by (rule run_backed [OF assms(4) _ assms(5)])
  moreover have "x \<in> set S" using holdings_keeps [OF assms(5) _ assms(6)] by simp
  ultimately show ?thesis by (rule backed_test)
qed


theorem no_false_negatives_witness:
  "run toyHash [Add [0]] emptyFilter =
     Inr ([None], \<lparr>buckets = [True, True, False, False],
                    collisions = [False, False, False, False],
                    m = 4, regionSize = 1, k = 2, count = 1\<rparr>) \<and>
   holdings [] (zip [Add [0]] [None]) = Some [[0]] \<and>
   add toyHash [1] \<lparr>buckets = [True, True, False, False],
                      collisions = [False, False, False, False],
                      m = 4, regionSize = 1, k = 2, count = 1\<rparr> =
     Inr \<lparr>buckets = [True, True, True, True], collisions = [False, False, False, False],
          m = 4, regionSize = 1, k = 2, count = 2\<rparr> \<and>
   run toyHash [TestAndRemove [0], Test [0]]
       \<lparr>buckets = [True, True, True, True], collisions = [False, False, False, False],
        m = 4, regionSize = 1, k = 2, count = 2\<rparr> =
     Inr ([Some True, Some False], exampleFilter) \<and>
   holdings [[1], [0]] (zip [TestAndRemove [0], Test [0]] [Some True, Some False]) =
     Some [[1]] \<and>
   test toyHash [1] exampleFilter = Inr (True, exampleFilter)"
proof -
  have a: "run toyHash [Add [0]] emptyFilter =
     Inr ([None], \<lparr>buckets = [True, True, False, False],
                    collisions = [False, False, False, False],
                    m = 4, regionSize = 1, k = 2, count = 1\<rparr>)"
    by (simp add: eval_defs emptyFilter_def)
  have b: "holdings [] (zip [Add [0]] [None]) = Some [[0]]" by simp
  have c: "add toyHash [1] \<lparr>buckets = [True, True, False, False],
                      collisions = [False, False, False, False],
                      m = 4, regionSize = 1, k = 2, count = 1\<rparr> =
     Inr \<lparr>buckets = [True, True, True, True], collisions = [False, False, False, False],
          m = 4, regionSize = 1, k = 2, count = 2\<rparr>"
    by (simp add: eval_defs)
  have d: "run toyHash [TestAndRemove [0], Test [0]]
       \<lparr>buckets = [True, True, True, True], collisions = [False, False, False, False],
        m = 4, regionSize = 1, k = 2, count = 2\<rparr> =
     Inr ([Some True, Some False], exampleFilter)"
    by (simp add: eval_defs exampleFilter_def)
  have e: "holdings [[1], [0]] (zip [TestAndRemove [0], Test [0]] [Some True, Some False]) =
     Some [[1]]"
    by simp
  have f: "\<forall>p\<in>set (zip [TestAndRemove [0], Test [0]] [Some True, Some False]).
      fst p \<noteq> Reset \<and> p \<noteq> (TestAndRemove [1], Some True)"
    by simp
  show ?thesis
    using no_false_negatives [OF a b c d e f] a b c d e by simp
qed

text \<open>
  The claim as stated fails when a false positive is removed: after \<^verbatim>\<open>add\<close> of the
  buffer \<open>[1]\<close>, \<^verbatim>\<open>testAndRemove\<close> of the colliding buffer \<open>[1, 0]\<close> returns true and
  clears both bits, and \<^verbatim>\<open>test\<close> of \<open>[1]\<close> returns false.
\<close>

theorem no_false_negatives_counterexample:
  "run toyHash [Add [1], TestAndRemove [1, 0], Test [1]] emptyFilter =
     Inr ([None, Some True, Some False], emptyFilter) \<and>
   [1, 0] \<noteq> [1 :: 8 word]"
  by (simp add: eval_defs emptyFilter_def)

end
